theory Spec2Isabelle
  imports Complex_Main
begin

section \<open>Discrete conditionals and discrete Bayes trees of GTSAM\<close>

text \<open>
  A shallow embedding of \<^verbatim>\<open>gtsam/discrete/DiscreteConditional.cpp\<close> and
  \<^verbatim>\<open>gtsam/discrete/DiscreteBayesTree.cpp\<close>.

  Conventions of the embedding:
  \<^item> \<^verbatim>\<open>Key\<close> (an unsigned 64-bit identifier) and \<^verbatim>\<open>size_t\<close> values are natural numbers:
    the code only compares them and counts upwards below a cardinality, so no
    wrap-around can occur.
  \<^item> \<^verbatim>\<open>double\<close> is \<open>real\<close>. \<^verbatim>\<open>solve\<close> and \<^verbatim>\<open>sample\<close> only compare table entries
    (\<^verbatim>\<open>>\<close>, \<^verbatim>\<open>==\<close>), which is exact on finite doubles; \<^verbatim>\<open>evaluate\<close> multiplies, and
    rounding of the products is not modelled.
  \<^item> a C++ exception is a value \<open>Inl e\<close> of the result type \<open>error + 'a\<close>;
    a failing \<^verbatim>\<open>assert\<close> is the value \<open>Inl AssertionFailure\<close>.
\<close>

subsection \<open>Assignments (DiscreteValues.h)\<close>

type_synonym Key = nat

text \<open>\<^verbatim>\<open>using DiscreteValues = Assignment<Key>\<close>, a \<^verbatim>\<open>std::map<Key, size_t>\<close>.\<close>

type_synonym DiscreteValues = "Key \<rightharpoonup> nat"

text \<open>\<^verbatim>\<open>DiscreteKey\<close>: a key paired with its cardinality.\<close>

type_synonym DiscreteKey = "Key \<times> nat"

subsection \<open>The table substrate\<close>

text \<open>
  Modelled from the spec: the algebraic decision tree \<^verbatim>\<open>Potentials::ADT\<close> is declared
  outside the given sources. The spec describes it as a function from an assignment to
  a real number that supports "evaluate at an assignment" and "restrict by one variable
  equals value (yielding a smaller table)". The table is therefore the function itself;
  restricting it by \<open>j = v\<close> is the table that looks every assignment up with \<open>j\<close>
  fixed to \<open>v\<close>.
\<close>

type_synonym ADT = "DiscreteValues \<Rightarrow> real"

definition ADT_apply :: "ADT \<Rightarrow> DiscreteValues \<Rightarrow> real" where
  "ADT_apply t x = t x"

definition ADT_choose :: "ADT \<Rightarrow> Key \<Rightarrow> nat \<Rightarrow> ADT" where
  "ADT_choose t j v = (\<lambda>x. t (x(j \<mapsto> v)))"

subsection \<open>The conditional probability node\<close>

text \<open>
  Modelled from the spec: the class declaration (\<^verbatim>\<open>DiscreteConditional.h\<close>,
  \<^verbatim>\<open>Conditional.h\<close>, \<^verbatim>\<open>Potentials.h\<close>) is outside the given sources. The spec gives the
  node a table and two ordered variable lists, the frontals and the parents, and gives
  every variable a cardinality. The key vector \<^verbatim>\<open>keys_\<close> of the code is the frontals
  followed by the parents, and \<^verbatim>\<open>nrFrontals()\<close> is the number of frontals.
\<close>

record DiscreteConditional =
  frontals :: "Key list"
  parents :: "Key list"
  cardinality :: "Key \<Rightarrow> nat"
  table :: ADT

definition keys :: "DiscreteConditional \<Rightarrow> Key list" where
  "keys c = frontals c @ parents c"

definition nrFrontals :: "DiscreteConditional \<Rightarrow> nat" where
  "nrFrontals c = length (frontals c)"

text \<open>
  \<^verbatim>\<open>firstFrontalKey()\<close> is the first entry of \<^verbatim>\<open>keys_\<close>. Every call in the modelled code
  follows a check that there is exactly one frontal variable.
\<close>

definition firstFrontalKey :: "DiscreteConditional \<Rightarrow> Key" where
  "firstFrontalKey c = hd (keys c)"

text \<open>
  The errors of the code, named as in the spec's taxonomy:
  \<^item> \<open>MissingParentValue\<close> is
    \<^verbatim>\<open>runtime_error("DiscreteConditional::choose: parent value missing")\<close>;
  \<^item> \<open>UnsupportedArity\<close> is
    \<^verbatim>\<open>runtime_error("Expected only one frontal variable in choose.")\<close>;
  \<^item> \<open>AssertionFailure\<close> is a failing \<^verbatim>\<open>assert(nrFrontals() == 1)\<close>, which aborts the
    process in a build with assertions. (With \<^verbatim>\<open>NDEBUG\<close> the check is compiled out;
    wherever there is exactly one frontal variable both builds behave alike.)
\<close>

datatype error = MissingParentValue | UnsupportedArity | AssertionFailure

subsection \<open>choose\<close>

text \<open>
  \<^verbatim>\<open>
  ADT pFS(*this);
  for (Key j : parents()) {
    try {
      value = parentsValues.at(j);
      pFS = pFS.choose(j, value);
    } catch (exception&) {
      ... throw runtime_error("DiscreteConditional::choose: parent value missing");
    };
  }
  return pFS;
  \<close>
  \<^verbatim>\<open>std::map::at\<close> throws when the key is absent; the handler turns that into the
  runtime error. The table's own \<^verbatim>\<open>choose\<close> is total, as the spec describes it, so
  nothing else reaches the handler. (The function is named \<open>choose_cond\<close> because \<open>choose\<close> is the
  binomial coefficient of HOL.)
\<close>

fun choose_loop :: "DiscreteValues \<Rightarrow> Key list \<Rightarrow> ADT \<Rightarrow> error + ADT" where
  "choose_loop parentsValues [] pFS = Inr pFS"
| "choose_loop parentsValues (j # js) pFS =
     (case parentsValues j of
        None \<Rightarrow> Inl MissingParentValue
      | Some val \<Rightarrow> choose_loop parentsValues js (ADT_choose pFS j val))"

definition choose_cond :: "DiscreteConditional \<Rightarrow> DiscreteValues \<Rightarrow> error + ADT" where
  "choose_cond c parentsValues = choose_loop parentsValues (parents c) (table c)"

subsection \<open>chooseAsFactor\<close>

text \<open>
  Modelled from the spec: \<^verbatim>\<open>DecisionTreeFactor\<close> is declared outside the given
  sources; the spec calls the result "a standalone table object keyed by the frontal
  variables". It is built from a list of discrete keys and a table.
\<close>

record DecisionTreeFactor =
  factor_keys :: "DiscreteKey list"
  factor_table :: ADT

text \<open>
  \<^verbatim>\<open>
  ADT pFS = choose(parentsValues);
  if (nrFrontals() != 1) {
    throw std::runtime_error("Expected only one frontal variable in choose.");
  }
  DiscreteKeys keys;
  const Key frontalKey = keys_[0];
  size_t frontalCardinality = this->cardinality(frontalKey);
  keys.push_back(DiscreteKey(frontalKey, frontalCardinality));
  return boost::make_shared<DecisionTreeFactor>(keys, pFS);
  \<close>
\<close>

definition chooseAsFactor ::
  "DiscreteConditional \<Rightarrow> DiscreteValues \<Rightarrow> error + DecisionTreeFactor" where
  "chooseAsFactor c parentsValues =
     (case choose_cond c parentsValues of
        Inl e \<Rightarrow> Inl e
      | Inr pFS \<Rightarrow>
          if nrFrontals c \<noteq> 1 then Inl UnsupportedArity
          else
            let frontalKey = hd (keys c);
                frontalCardinality = cardinality c frontalKey
            in Inr \<lparr>factor_keys = [(frontalKey, frontalCardinality)], factor_table = pFS\<rparr>)"

subsection \<open>solve\<close>

text \<open>
  \<^verbatim>\<open>
  for (size_t value = 0; value < cardinality(j); value++) {
    frontals[j] = value;
    double pValueS = pFS(frontals);
    if (pValueS > maxP) { maxP = pValueS; mpe = value; }
  }
  return mpe;
  \<close>
  The local assignment \<^verbatim>\<open>frontals\<close> only ever holds the key \<open>j\<close>.
\<close>

function solve_loop :: "ADT \<Rightarrow> Key \<Rightarrow> nat \<Rightarrow> nat \<Rightarrow> real \<Rightarrow> nat \<Rightarrow> nat" where
  "solve_loop pFS j n val maxP mpe =
     (if val < n then
        (let pValueS = ADT_apply pFS [j \<mapsto> val]
         in if pValueS > maxP then solve_loop pFS j n (val + 1) pValueS val
            else solve_loop pFS j n (val + 1) maxP mpe)
      else mpe)"
  by pat_completeness auto
termination
  by (relation "measure (\<lambda>(pFS, j, n, val, maxP, mpe). n - val)") auto

declare solve_loop.simps [simp del]

text \<open>
  \<^verbatim>\<open>
  ADT pFS = choose(parentsValues);
  size_t mpe = 0;
  DiscreteValues frontals;
  double maxP = 0;
  assert(nrFrontals() == 1);
  Key j = (firstFrontalKey());
  ... the loop ...
  \<close>
\<close>

definition solve :: "DiscreteConditional \<Rightarrow> DiscreteValues \<Rightarrow> error + nat" where
  "solve c parentsValues =
     (case choose_cond c parentsValues of
        Inl e \<Rightarrow> Inl e
      | Inr pFS \<Rightarrow>
          if nrFrontals c \<noteq> 1 then Inl AssertionFailure
          else
            let j = firstFrontalKey c
            in Inr (solve_loop pFS j (cardinality c j) 0 0 0))"

subsection \<open>sample\<close>

text \<open>
  The standard library is a parameter of the model: \<open>mt19937 s\<close> is the state of a
  Mersenne twister constructed with seed \<open>s\<close>, and \<open>discrete_distribution p rng\<close> is
  one draw of \<^verbatim>\<open>std::discrete_distribution<size_t>\<close> with weights \<open>p\<close> from the
  generator \<open>rng\<close>: the index drawn and the generator afterwards.

  \<^verbatim>\<open>static mt19937 rng(2);\<close> is a function-local static: it is constructed when control
  first passes the declaration and kept for the rest of the process. The process-wide
  state is \<open>None\<close> before the first call and \<open>Some rng\<close> afterwards.
\<close>

definition static_rng :: "(nat \<Rightarrow> 'g) \<Rightarrow> 'g option \<Rightarrow> 'g" where
  "static_rng mt19937 st = (case st of None \<Rightarrow> mt19937 2 | Some rng \<Rightarrow> rng)"

text \<open>
  \<^verbatim>\<open>
  vector<double> p(nj);
  for (size_t value = 0; value < nj; value++) {
    frontals[key] = value;
    p[value] = pFS(frontals);
    if (p[value] == 1.0) {
      return value;  // shortcut exit
    }
  }
  \<close>
  The loop either leaves the function with a value or ends with the weights filled in.
\<close>

datatype sample_scan = Shortcut nat | Weights "real list"

function sample_loop :: "ADT \<Rightarrow> Key \<Rightarrow> nat \<Rightarrow> nat \<Rightarrow> real list \<Rightarrow> sample_scan" where
  "sample_loop pFS key nj val p =
     (if val < nj then
        (let p' = p[val := ADT_apply pFS [key \<mapsto> val]]
         in if p' ! val = 1 then Shortcut val
            else sample_loop pFS key nj (val + 1) p')
      else Weights p)"
  by pat_completeness auto
termination
  by (relation "measure (\<lambda>(pFS, key, nj, val, p). nj - val)") auto

declare sample_loop.simps [simp del]

text \<open>
  \<^verbatim>\<open>
  static mt19937 rng(2);
  ADT pFS = choose(parentsValues);
  assert(nrFrontals() == 1);
  Key key = firstFrontalKey();
  size_t nj = cardinality(key);
  ... the loop ...
  std::discrete_distribution<size_t> distribution(p.begin(), p.end());
  return distribution(rng);
  \<close>
\<close>

definition sample ::
  "(nat \<Rightarrow> 'g) \<Rightarrow> (real list \<Rightarrow> 'g \<Rightarrow> nat \<times> 'g) \<Rightarrow>
   DiscreteConditional \<Rightarrow> DiscreteValues \<Rightarrow> 'g option \<Rightarrow> (error + nat) \<times> 'g option" where
  "sample mt19937 discrete_distribution c parentsValues st =
     (let rng = static_rng mt19937 st
      in case choose_cond c parentsValues of
           Inl e \<Rightarrow> (Inl e, Some rng)
         | Inr pFS \<Rightarrow>
             if nrFrontals c \<noteq> 1 then (Inl AssertionFailure, Some rng)
             else
               let key = firstFrontalKey c;
                   nj = cardinality c key
               in case sample_loop pFS key nj 0 (replicate nj 0) of
                    Shortcut v \<Rightarrow> (Inr v, Some rng)
                  | Weights p \<Rightarrow>
                      (case discrete_distribution p rng of
                         (v, rng') \<Rightarrow> (Inr v, Some rng')))"

text \<open>
  A process that calls \<^verbatim>\<open>sample\<close> repeatedly: the results of the calls in order. A
  failed assertion aborts the process; an exception is returned to the caller, who may
  go on.
\<close>

fun sample_calls ::
  "(nat \<Rightarrow> 'g) \<Rightarrow> (real list \<Rightarrow> 'g \<Rightarrow> nat \<times> 'g) \<Rightarrow>
   (DiscreteConditional \<times> DiscreteValues) list \<Rightarrow> 'g option \<Rightarrow> (error + nat) list" where
  "sample_calls mt19937 discrete_distribution [] st = []"
| "sample_calls mt19937 discrete_distribution ((c, parentsValues) # calls) st =
     (case sample mt19937 discrete_distribution c parentsValues st of
        (r, st') \<Rightarrow>
          if r = Inl AssertionFailure then [r]
          else r # sample_calls mt19937 discrete_distribution calls st')"

text \<open>
  The spec's account of sampling, for comparison with the code. Its design notes pass
  the generator explicitly ("an explicitly passed generator-state parameter threaded
  through sample calls, defaulting to a fixed-seed instance at the top-level entry
  point"), and its contract for one call is: restrict the table by the evidence; the
  candidates are the values of the one frontal variable with the restricted table's
  entries as weights; a value whose weight is exactly 1 is returned without drawing
  (the first one met); otherwise one value is drawn from the categorical distribution
  over the weights. There is no process-wide state here: the generator comes in and
  goes out.
\<close>

definition spec_sample ::
  "(real list \<Rightarrow> 'g \<Rightarrow> nat \<times> 'g) \<Rightarrow>
   DiscreteConditional \<Rightarrow> DiscreteValues \<Rightarrow> 'g \<Rightarrow> (error + nat) \<times> 'g" where
  "spec_sample discrete_distribution c parentsValues rng =
     (case choose_cond c parentsValues of
        Inl e \<Rightarrow> (Inl e, rng)
      | Inr pFS \<Rightarrow>
          if nrFrontals c \<noteq> 1 then (Inl AssertionFailure, rng)
          else
            let key = firstFrontalKey c;
                weights = map (\<lambda>v. ADT_apply pFS [key \<mapsto> v]) [0 ..< cardinality c key]
            in if 1 \<in> set weights
               then (Inr (length (takeWhile (\<lambda>w. w \<noteq> 1) weights)), rng)
               else (case discrete_distribution weights rng of
                       (v, rng') \<Rightarrow> (Inr v, rng')))"

text \<open>The calls of a process in order, the generator handed from each call to the next.\<close>

fun spec_sample_calls ::
  "(real list \<Rightarrow> 'g \<Rightarrow> nat \<times> 'g) \<Rightarrow>
   (DiscreteConditional \<times> DiscreteValues) list \<Rightarrow> 'g \<Rightarrow> (error + nat) list" where
  "spec_sample_calls discrete_distribution [] rng = []"
| "spec_sample_calls discrete_distribution ((c, parentsValues) # calls) rng =
     (case spec_sample discrete_distribution c parentsValues rng of
        (r, rng') \<Rightarrow>
          if r = Inl AssertionFailure then [r]
          else r # spec_sample_calls discrete_distribution calls rng')"

subsection \<open>solveInPlace and sampleInPlace\<close>

text \<open>
  \<^verbatim>\<open>
  for(DiscreteValues& frontalVals: allPosbValues) {
    double pValueS = pFS(frontalVals);
    if (pValueS > maxP) { maxP = pValueS; mpe = frontalVals; }
  }
  \<close>
\<close>

fun solveInPlace_search ::
  "ADT \<Rightarrow> DiscreteValues list \<Rightarrow> real \<Rightarrow> DiscreteValues \<Rightarrow> DiscreteValues" where
  "solveInPlace_search pFS [] maxP mpe = mpe"
| "solveInPlace_search pFS (frontalVals # rest) maxP mpe =
     (let pValueS = ADT_apply pFS frontalVals
      in if pValueS > maxP then solveInPlace_search pFS rest pValueS frontalVals
         else solveInPlace_search pFS rest maxP mpe)"

text \<open>
  \<^verbatim>\<open>for(Key j: frontals()) { (*values)[j] = mpe[j]; }\<close>
  where \<^verbatim>\<open>mpe[j]\<close> on a \<^verbatim>\<open>std::map\<close> yields 0 for a key that is absent.
\<close>

fun solveInPlace_store :: "Key list \<Rightarrow> DiscreteValues \<Rightarrow> DiscreteValues \<Rightarrow> DiscreteValues" where
  "solveInPlace_store [] mpe vals = vals"
| "solveInPlace_store (j # js) mpe vals =
     solveInPlace_store js mpe (vals(j \<mapsto> (case mpe j of None \<Rightarrow> 0 | Some v \<Rightarrow> v)))"

text \<open>
  \<^verbatim>\<open>cartesianProduct\<close> (all assignments of a list of discrete keys) is declared outside
  the given sources and is a parameter of the model. The caller's assignment is passed
  in and returned: on an exception it is returned as it was.
  \<^verbatim>\<open>
  ADT pFS = choose(*values);
  DiscreteValues mpe;
  double maxP = 0;
  DiscreteKeys keys;
  for(Key idx: frontals()) { DiscreteKey dk(idx, cardinality(idx)); keys & dk; }
  vector<DiscreteValues> allPosbValues = cartesianProduct(keys);
  ... search ... store ...
  \<close>
\<close>

definition solveInPlace ::
  "(DiscreteKey list \<Rightarrow> DiscreteValues list) \<Rightarrow>
   DiscreteConditional \<Rightarrow> DiscreteValues \<Rightarrow> (error + unit) \<times> DiscreteValues" where
  "solveInPlace cartesianProduct c vals =
     (case choose_cond c vals of
        Inl e \<Rightarrow> (Inl e, vals)
      | Inr pFS \<Rightarrow>
          let dkeys = map (\<lambda>idx. (idx, cardinality c idx)) (frontals c);
              allPosbValues = cartesianProduct dkeys;
              mpe = solveInPlace_search pFS allPosbValues 0 Map.empty
          in (Inr (), solveInPlace_store (frontals c) mpe vals))"

text \<open>
  \<^verbatim>\<open>
  assert(nrFrontals() == 1);
  Key j = (firstFrontalKey());
  size_t sampled = sample(*values);
  (*values)[j] = sampled;
  \<close>
\<close>

definition sampleInPlace ::
  "(nat \<Rightarrow> 'g) \<Rightarrow> (real list \<Rightarrow> 'g \<Rightarrow> nat \<times> 'g) \<Rightarrow>
   DiscreteConditional \<Rightarrow> DiscreteValues \<Rightarrow> 'g option \<Rightarrow>
   (error + unit) \<times> DiscreteValues \<times> 'g option" where
  "sampleInPlace mt19937 discrete_distribution c vals st =
     (if nrFrontals c \<noteq> 1 then (Inl AssertionFailure, vals, st)
      else
        let j = firstFrontalKey c
        in case sample mt19937 discrete_distribution c vals st of
             (Inl e, st') \<Rightarrow> (Inl e, vals, st')
           | (Inr sampled, st') \<Rightarrow> (Inr (), vals(j \<mapsto> sampled), st'))"

subsection \<open>Cliques and the Bayes tree (DiscreteBayesTree.cpp)\<close>

text \<open>
  Modelled from the spec: the declarations of the clique and the tree are outside the
  given sources. A clique owns one conditional and an ordered collection of child
  cliques; the tree owns an ordered collection of root cliques.
\<close>

datatype DiscreteBayesTreeClique =
  Clique (conditional: DiscreteConditional) (children: "DiscreteBayesTreeClique list")

record DiscreteBayesTree =
  roots :: "DiscreteBayesTreeClique list"

text \<open>
  Modelled from the spec: \<^verbatim>\<open>(*conditional_)(values)\<close> is the call operator of the
  conditional, declared outside the given sources; the spec's \<open>evaluateJoint\<close> is "the
  table evaluated at the given assignment over frontals and parents, with no
  restriction step".
\<close>

definition evaluateJoint :: "DiscreteConditional \<Rightarrow> DiscreteValues \<Rightarrow> real" where
  "evaluateJoint c vals = ADT_apply (table c) vals"

text \<open>
  \<^verbatim>\<open>
  double result = (*conditional_)(values);
  for (const auto& child : children) {
    result *= child->evaluate(values);
  }
  return result;
  \<close>
\<close>

fun Clique_evaluate :: "DiscreteBayesTreeClique \<Rightarrow> DiscreteValues \<Rightarrow> real" where
  "Clique_evaluate (Clique cond chs) vals =
     foldl (\<lambda>result child. result * Clique_evaluate child vals) (evaluateJoint cond vals) chs"

text \<open>
  \<^verbatim>\<open>
  double result = 1.0;
  for (const auto& root : roots_) {
    result *= root->evaluate(values);
  }
  return result;
  \<close>
\<close>

definition Tree_evaluate :: "DiscreteBayesTree \<Rightarrow> DiscreteValues \<Rightarrow> real" where
  "Tree_evaluate t vals =
     foldl (\<lambda>result root. result * Clique_evaluate root vals) 1 (roots t)"

subsection \<open>Example conditionals\<close>

text \<open>
  The conditional of the spec's scenario: \<open>Y\<close> (key 1, cardinality 2) given \<open>X\<close>
  (key 0, cardinality 2) with \<open>P(Y=0|X=0) = 0.9\<close>, \<open>P(Y=1|X=0) = 0.1\<close>,
  \<open>P(Y=0|X=1) = 0.2\<close>, \<open>P(Y=1|X=1) = 0.8\<close>.
\<close>

definition P_Y_given_X :: DiscreteConditional where
  "P_Y_given_X =
     \<lparr>frontals = [1], parents = [0], cardinality = (\<lambda>_. 2),
      table = (\<lambda>x. if x 0 = Some 0
                    then (if x 1 = Some 0 then 9 / 10 else 1 / 10)
                    else (if x 1 = Some 0 then 2 / 10 else 8 / 10))\<rparr>"

text \<open>
  The single binary variable of the spec's scenario: \<open>X\<close> (key 0, cardinality 2), no
  parents, \<open>P(X=0) = 0.3\<close> and \<open>P(X=1) = 0.7\<close>.
\<close>

definition P_X :: DiscreteConditional where
  "P_X = \<lparr>frontals = [0], parents = [], cardinality = (\<lambda>_. 2),
          table = (\<lambda>x. if x 0 = Some 0 then 3 / 10 else 7 / 10)\<rparr>"

text \<open>A table that is zero everywhere, and one with all mass on the value 1.\<close>

definition P_zero :: DiscreteConditional where
  "P_zero = \<lparr>frontals = [0], parents = [], cardinality = (\<lambda>_. 2), table = (\<lambda>x. 0)\<rparr>"

definition P_certain :: DiscreteConditional where
  "P_certain = \<lparr>frontals = [0], parents = [], cardinality = (\<lambda>_. 2),
                table = (\<lambda>x. if x 0 = Some 1 then 1 else 0)\<rparr>"

text \<open>A conditional with two frontal variables (keys 0 and 1) and one parent (key 2).\<close>

definition P_AB_given_C :: DiscreteConditional where
  "P_AB_given_C = \<lparr>frontals = [0, 1], parents = [2], cardinality = (\<lambda>_. 2),
                   table = (\<lambda>x. 1 / 4)\<rparr>"

text \<open>
  The two-clique tree of the spec's scenario, with root \<open>P(X)\<close> and child \<open>P(Y|X)\<close>,
  and the tree without roots.
\<close>

definition two_clique_tree :: DiscreteBayesTree where
  "two_clique_tree = \<lparr>roots = [Clique P_X [Clique P_Y_given_X []]]\<rparr>"

definition empty_tree :: DiscreteBayesTree where
  "empty_tree = \<lparr>roots = []\<rparr>"


section \<open>Properties\<close>

subsection \<open>choose\<close>

lemma choose_loop_missing:
  "(choose_loop ev js t = Inl e) \<longleftrightarrow> (e = MissingParentValue \<and> \<not> set js \<subseteq> dom ev)"
  by (induction js arbitrary: t) (auto split: option.splits)

lemma choose_loop_present:
  "set js \<subseteq> dom ev \<Longrightarrow>
   choose_loop ev js t = Inr (foldl (\<lambda>pFS j. ADT_choose pFS j (the (ev j))) t js)"
  by (induction js arbitrary: t) (auto split: option.splits)

text \<open>
  C3. \<open>choose\<close> fails, and then with \<open>MissingParentValue\<close>, exactly when some parent of
  the node is absent from the evidence; when every parent is present it returns the
  table restricted by each parent in turn, in the order of the parent list, to the
  parent's value in the evidence.
\<close>

theorem choose_missing_parent_iff:
  "((\<exists>e. choose_cond c parentsValues = Inl e) \<longleftrightarrow> \<not> set (parents c) \<subseteq> dom parentsValues) \<and>
   (choose_cond c parentsValues = Inl MissingParentValue
      \<longleftrightarrow> \<not> set (parents c) \<subseteq> dom parentsValues) \<and>
   (set (parents c) \<subseteq> dom parentsValues \<longrightarrow>
      choose_cond c parentsValues =
        Inr (foldl (\<lambda>pFS j. ADT_choose pFS j (the (parentsValues j))) (table c) (parents c)))"
  unfolding choose_cond_def
  using choose_loop_missing [of parentsValues "parents c" "table c"]
        choose_loop_present [of "parents c" parentsValues "table c"]
  by blast

theorem choose_missing_parent_iff_witness:
  "set (parents P_Y_given_X) \<subseteq> dom [0 \<mapsto> 0] \<and>
   choose_cond P_Y_given_X [0 \<mapsto> 0] = Inr (ADT_choose (table P_Y_given_X) 0 0) \<and>
   ADT_apply (ADT_choose (table P_Y_given_X) 0 0) [1 \<mapsto> 1] = 1 / 10 \<and>
   \<not> set (parents P_Y_given_X) \<subseteq> dom [1 \<mapsto> 0] \<and>
   choose_cond P_Y_given_X [1 \<mapsto> 0] = Inl MissingParentValue"
  using choose_missing_parent_iff [of P_Y_given_X "[0 \<mapsto> 0]"]
        choose_missing_parent_iff [of P_Y_given_X "[1 \<mapsto> 0]"]
  by (simp add: P_Y_given_X_def ADT_choose_def ADT_apply_def)

subsection \<open>evaluate\<close>

lemma foldl_times_prod_list:
  "foldl (\<lambda>result x. result * f x) a xs = a * prod_list (map f xs)"
  for a :: real
  by (induction xs arbitrary: a) (simp_all add: mult.assoc)

text \<open>
  C2. The clique's \<open>evaluate\<close> is the value of its own conditional at the assignment,
  times the product over the children of the child's \<open>evaluate\<close> at the same
  assignment.
\<close>

theorem Clique_evaluate_product:
  "Clique_evaluate c vals =
     evaluateJoint (conditional c) vals *
     prod_list (map (\<lambda>child. Clique_evaluate child vals) (children c))"
  by (cases c) (simp add: foldl_times_prod_list)

text \<open>
  C1. The tree's \<open>evaluate\<close> is the product over the root cliques of the root's
  \<open>evaluate\<close> at the same assignment.
\<close>

theorem Tree_evaluate_product:
  "Tree_evaluate t vals = prod_list (map (\<lambda>root. Clique_evaluate root vals) (roots t))"
  by (simp add: Tree_evaluate_def foldl_times_prod_list)

text \<open>The spec's scenario: \<open>evaluate({X:0, Y:1}) = P(X=0) * P(Y=1|X=0)\<close>.\<close>

lemma two_clique_tree_evaluate:
  "Tree_evaluate two_clique_tree [0 \<mapsto> 0, 1 \<mapsto> 1] = 3 / 10 * (1 / 10)"
  by (simp add: two_clique_tree_def Tree_evaluate_def evaluateJoint_def ADT_apply_def
      P_X_def P_Y_given_X_def)

text \<open>
  C10. On a tree without root cliques \<open>evaluate\<close> returns 1, the empty product, at
  every assignment.
\<close>

theorem Tree_evaluate_no_roots: "roots t = [] \<Longrightarrow> Tree_evaluate t vals = 1"
  by (simp add: Tree_evaluate_def)

theorem Tree_evaluate_no_roots_witness:
  "roots empty_tree = [] \<and> Tree_evaluate empty_tree [0 \<mapsto> 1] = 1"
  using Tree_evaluate_no_roots [of empty_tree "[0 \<mapsto> 1]"]
  by (simp add: empty_tree_def)

subsection \<open>solve\<close>

text \<open>
  The invariant of the loop, with \<open>p\<close> the restricted table as a function of the
  frontal value: either nothing positive has been seen and the result is still the
  initial 0, or \<open>mpe\<close> is the first index among those seen where the largest value seen,
  a positive one, is taken.
\<close>

lemma solve_loop_inv:
  assumes p: "\<And>u. ADT_apply pFS [j \<mapsto> u] = p u"
    and "(maxP = 0 \<and> mpe = 0 \<and> (\<forall>u<val. p u \<le> 0)) \<or>
           (mpe < val \<and> maxP = p mpe \<and> 0 < maxP \<and>
            (\<forall>u<val. p u \<le> maxP) \<and> (\<forall>u<mpe. p u < maxP))"
    and "val \<le> n"
  shows "(solve_loop pFS j n val maxP mpe = 0 \<and> (\<forall>u<n. p u \<le> 0)) \<or>
         (solve_loop pFS j n val maxP mpe < n \<and>
          0 < p (solve_loop pFS j n val maxP mpe) \<and>
          (\<forall>u<n. p u \<le> p (solve_loop pFS j n val maxP mpe)) \<and>
          (\<forall>u<solve_loop pFS j n val maxP mpe. p u < p (solve_loop pFS j n val maxP mpe)))"
  using assms
proof (induction pFS j n val maxP mpe rule: solve_loop.induct)
  case (1 pFS j n val maxP mpe)
  note p = "1.prems"(1)
  note inv = "1.prems"(2)
  show ?case
  proof (cases "val < n")
    case False
    with "1.prems"(3) have "val = n" by simp
    moreover from False have "solve_loop pFS j n val maxP mpe = mpe"
      by (subst solve_loop.simps) simp
    ultimately show ?thesis using inv by auto
  next
    case True
    then have le: "val + 1 \<le> n" by simp
    show ?thesis
    proof (cases "p val > maxP")
      case gt: True
      have step: "solve_loop pFS j n val maxP mpe = solve_loop pFS j n (val + 1) (p val) val"
        using True gt by (subst solve_loop.simps) (simp add: p Let_def)
      have inv': "(p val = 0 \<and> val = 0 \<and> (\<forall>u<val + 1. p u \<le> 0)) \<or>
           (val < val + 1 \<and> p val = p val \<and> 0 < p val \<and>
            (\<forall>u<val + 1. p u \<le> p val) \<and> (\<forall>u<val. p u < p val))"
        using inv gt by (fastforce simp: less_Suc_eq)
      from "1.IH"(1)[OF True p[of val, symmetric] gt p inv' le]
      show ?thesis unfolding step .
    next
      case ngt: False
      have step: "solve_loop pFS j n val maxP mpe = solve_loop pFS j n (val + 1) maxP mpe"
        using True ngt by (subst solve_loop.simps) (simp add: p Let_def)
      have inv': "(maxP = 0 \<and> mpe = 0 \<and> (\<forall>u<val + 1. p u \<le> 0)) \<or>
           (mpe < val + 1 \<and> maxP = p mpe \<and> 0 < maxP \<and>
            (\<forall>u<val + 1. p u \<le> maxP) \<and> (\<forall>u<mpe. p u < maxP))"
        using inv ngt by (fastforce simp: less_Suc_eq)
      have ngt': "\<not> maxP < ADT_apply pFS [j \<mapsto> val]" using ngt by (simp add: p)
      from "1.IH"(2)[OF True refl ngt' p inv' le]
      show ?thesis unfolding step .
    qed
  qed
qed

lemma solve_loop_start:
  assumes p: "\<And>u. ADT_apply pFS [j \<mapsto> u] = p u"
  shows "(solve_loop pFS j n 0 0 0 = 0 \<and> (\<forall>u<n. p u \<le> 0)) \<or>
         (solve_loop pFS j n 0 0 0 < n \<and>
          0 < p (solve_loop pFS j n 0 0 0) \<and>
          (\<forall>u<n. p u \<le> p (solve_loop pFS j n 0 0 0)) \<and>
          (\<forall>u<solve_loop pFS j n 0 0 0. p u < p (solve_loop pFS j n 0 0 0)))"
  by (rule solve_loop_inv[OF p]) simp_all

lemma solve_single_frontal:
  assumes "nrFrontals c = 1" and "choose_cond c parentsValues = Inr pFS"
  shows "solve c parentsValues =
         Inr (solve_loop pFS (firstFrontalKey c) (cardinality c (firstFrontalKey c)) 0 0 0)"
  using assms by (simp add: solve_def Let_def)

text \<open>
  C4. For a conditional with one frontal variable of cardinality \<open>k\<close> and parent
  evidence for which \<open>choose\<close> yields the restricted table \<open>pFS\<close>, \<open>solve\<close> returns an
  index below \<open>k\<close> at which the restricted table is at least its value at every index
  below \<open>k\<close>, and strictly greater than its value at every lower index: the lowest
  maximiser. The table entries are non-negative and \<open>k\<close> is positive, as the spec's
  data model has it (a table maps to non-negative reals, a variable takes values in
  \<open>{0, ..., k - 1}\<close>).
\<close>

theorem solve_optimal:
  assumes "nrFrontals c = 1"
    and "choose_cond c parentsValues = Inr pFS"
    and "0 < cardinality c (firstFrontalKey c)"
    and "\<forall>v < cardinality c (firstFrontalKey c). 0 \<le> ADT_apply pFS [firstFrontalKey c \<mapsto> v]"
  shows "\<exists>mpe. solve c parentsValues = Inr mpe \<and>
           mpe < cardinality c (firstFrontalKey c) \<and>
           (\<forall>v < cardinality c (firstFrontalKey c).
              ADT_apply pFS [firstFrontalKey c \<mapsto> v] \<le> ADT_apply pFS [firstFrontalKey c \<mapsto> mpe]) \<and>
           (\<forall>v < mpe.
              ADT_apply pFS [firstFrontalKey c \<mapsto> v] < ADT_apply pFS [firstFrontalKey c \<mapsto> mpe])"
proof -
  define j where "j = firstFrontalKey c"
  define n where "n = cardinality c j"
  define p where "p = (\<lambda>u. ADT_apply pFS [j \<mapsto> u])"
  define m where "m = solve_loop pFS j n 0 0 0"
  have p: "\<And>u. ADT_apply pFS [j \<mapsto> u] = p u" by (simp add: p_def)
  have nonneg: "\<forall>v<n. 0 \<le> p v" using assms(4) by (simp add: p_def j_def n_def)
  have pos: "0 < n" using assms(3) by (simp add: j_def n_def)
  have res: "solve c parentsValues = Inr m"
    using solve_single_frontal[OF assms(1,2)] by (simp add: m_def j_def n_def)
  from solve_loop_start[OF p, of n]
  have "m < n \<and> (\<forall>v<n. p v \<le> p m) \<and> (\<forall>v<m. p v < p m)"
    unfolding m_def[symmetric]
  proof (elim disjE conjE)
    assume m0: "m = 0" and le: "\<forall>u<n. p u \<le> 0"
    have "p v \<le> p m" if "v < n" for v
    proof -
      from le that have "p v \<le> 0" by simp
      moreover from nonneg pos m0 have "0 \<le> p m" by simp
      ultimately show ?thesis by simp
    qed
    with m0 pos show ?thesis by simp
  next
    assume "m < n" "\<forall>u<n. p u \<le> p m" "\<forall>u<m. p u < p m"
    then show ?thesis by simp
  qed
  with res show ?thesis unfolding p_def j_def[symmetric] n_def[symmetric] by blast
qed

theorem solve_optimal_witness:
  "nrFrontals P_X = 1 \<and> choose_cond P_X Map.empty = Inr (table P_X) \<and>
   0 < cardinality P_X (firstFrontalKey P_X) \<and>
   ADT_apply (table P_X) [firstFrontalKey P_X \<mapsto> 0] = 3 / 10 \<and>
   ADT_apply (table P_X) [firstFrontalKey P_X \<mapsto> 1] = 7 / 10 \<and>
   solve P_X Map.empty = Inr 1"
proof -
  have 1: "nrFrontals P_X = 1" by (simp add: P_X_def nrFrontals_def)
  have 2: "choose_cond P_X Map.empty = Inr (table P_X)" by (simp add: P_X_def choose_cond_def)
  have k: "firstFrontalKey P_X = 0" by (simp add: P_X_def firstFrontalKey_def keys_def)
  have 3: "0 < cardinality P_X (firstFrontalKey P_X)" by (simp add: P_X_def)
  have t0: "ADT_apply (table P_X) [firstFrontalKey P_X \<mapsto> 0] = 3 / 10"
    by (simp add: k) (simp add: P_X_def ADT_apply_def)
  have t1: "ADT_apply (table P_X) [firstFrontalKey P_X \<mapsto> 1] = 7 / 10"
    by (simp add: k) (simp add: P_X_def ADT_apply_def)
  have c2: "cardinality P_X (firstFrontalKey P_X) = 2" by (simp add: P_X_def)
  have 4: "\<forall>v < cardinality P_X (firstFrontalKey P_X).
             0 \<le> ADT_apply (table P_X) [firstFrontalKey P_X \<mapsto> v]"
    unfolding c2 using t0 t1 by (auto simp: less_Suc_eq numeral_2_eq_2)
  from solve_optimal[OF 1 2 3 4] obtain mpe where
    r: "solve P_X Map.empty = Inr mpe" and b: "mpe < cardinality P_X (firstFrontalKey P_X)"
    and m: "\<forall>v < cardinality P_X (firstFrontalKey P_X).
              ADT_apply (table P_X) [firstFrontalKey P_X \<mapsto> v]
                \<le> ADT_apply (table P_X) [firstFrontalKey P_X \<mapsto> mpe]"
    by blast
  from b have "mpe = 0 \<or> mpe = 1" unfolding c2 by auto
  moreover have "mpe \<noteq> 0"
  proof
    assume "mpe = 0"
    with m[rule_format, of 1] t0 t1 c2 show False by simp
  qed
  ultimately have "mpe = 1" by simp
  with r 1 2 3 t0 t1 show ?thesis by simp
qed

text \<open>
  C9. For a conditional with one frontal variable and parent evidence for which
  \<open>choose\<close> yields a restricted table that is zero at every frontal value, \<open>solve\<close>
  returns the value 0.
\<close>

theorem solve_all_zero:
  assumes "nrFrontals c = 1"
    and "choose_cond c parentsValues = Inr pFS"
    and "\<forall>v < cardinality c (firstFrontalKey c). ADT_apply pFS [firstFrontalKey c \<mapsto> v] = 0"
  shows "solve c parentsValues = Inr 0"
proof -
  define j where "j = firstFrontalKey c"
  define n where "n = cardinality c j"
  define p where "p = (\<lambda>u. ADT_apply pFS [j \<mapsto> u])"
  have p: "\<And>u. ADT_apply pFS [j \<mapsto> u] = p u" by (simp add: p_def)
  have zero: "\<forall>v<n. p v = 0" using assms(3) by (simp add: p_def j_def n_def)
  from solve_loop_start[OF p, of n] zero
  have "solve_loop pFS j n 0 0 0 = 0" by fastforce
  with solve_single_frontal[OF assms(1,2)] show ?thesis by (simp add: j_def n_def)
qed

theorem solve_all_zero_witness:
  "nrFrontals P_zero = 1 \<and> choose_cond P_zero Map.empty = Inr (table P_zero) \<and>
   ADT_apply (table P_zero) [firstFrontalKey P_zero \<mapsto> 0] = 0 \<and>
   ADT_apply (table P_zero) [firstFrontalKey P_zero \<mapsto> 1] = 0 \<and>
   solve P_zero Map.empty = Inr 0"
proof -
  have 1: "nrFrontals P_zero = 1" by (simp add: P_zero_def nrFrontals_def)
  have 2: "choose_cond P_zero Map.empty = Inr (table P_zero)"
    by (simp add: P_zero_def choose_cond_def)
  have 3: "\<forall>v < cardinality P_zero (firstFrontalKey P_zero).
             ADT_apply (table P_zero) [firstFrontalKey P_zero \<mapsto> v] = 0"
    by (simp add: P_zero_def ADT_apply_def)
  from solve_all_zero[OF 1 2 3] 1 2 show ?thesis
    by (simp add: P_zero_def ADT_apply_def)
qed

subsection \<open>sample\<close>

text \<open>
  The scan leaves at the first index whose restricted value is exactly 1 (\<open>q\<close> is
  the vector of weights, one per value).
\<close>

lemma sample_loop_shortcut:
  assumes p: "\<And>u. ADT_apply pFS [key \<mapsto> u] = p u"
    and "v < nj" and "p v = 1" and "\<forall>u. val \<le> u \<longrightarrow> u < v \<longrightarrow> p u \<noteq> 1"
    and "val \<le> v" and "length q = nj"
  shows "sample_loop pFS key nj val q = Shortcut v"
  using assms
proof (induction pFS key nj val q rule: sample_loop.induct)
  case (1 pFS key nj val q)
  note p = "1.prems"(1)
  from "1.prems" have lt: "val < nj" by simp
  then have nth: "q[val := p val] ! val = p val" using "1.prems"(6) by simp
  show ?case
  proof (cases "val = v")
    case True
    with lt nth "1.prems"(3) show ?thesis
      by (subst sample_loop.simps) (simp add: p Let_def)
  next
    case False
    with "1.prems"(4,5) have ne: "p val \<noteq> 1" by simp
    have step: "sample_loop pFS key nj val q = sample_loop pFS key nj (val + 1) (q[val := p val])"
      using lt nth ne by (subst sample_loop.simps) (simp add: p Let_def)
    have ne': "q[val := ADT_apply pFS [key \<mapsto> val]] ! val \<noteq> 1"
      using nth ne by (simp add: p)
    have "sample_loop pFS key nj (val + 1) (q[val := ADT_apply pFS [key \<mapsto> val]]) = Shortcut v"
    proof (rule "1.IH"[OF lt refl ne' p "1.prems"(2,3)])
      show "\<forall>u\<ge>val + 1. u < v \<longrightarrow> p u \<noteq> 1" using "1.prems"(4) by simp
      show "val + 1 \<le> v" using False "1.prems"(5) by simp
      show "length (q[val := ADT_apply pFS [key \<mapsto> val]]) = nj" using "1.prems"(6) by simp
    qed
    then show ?thesis unfolding step by (simp add: p)
  qed
qed

text \<open>In a distribution with an entry equal to 1 every other entry is 0.\<close>

lemma distribution_unique_one:
  fixes p :: "nat \<Rightarrow> real"
  assumes nonneg: "\<forall>u<k. 0 \<le> p u" and total: "(\<Sum>u<k. p u) = 1"
    and v: "v < k" "p v = 1" and u: "u < k" "u \<noteq> v"
  shows "p u = 0"
proof -
  have "(\<Sum>w<k. p w) = p v + (\<Sum>w\<in>{..<k} - {v}. p w)"
    using v(1) by (simp add: sum.remove)
  with total v(2) have rest: "(\<Sum>w\<in>{..<k} - {v}. p w) = 0" by simp
  have "\<forall>w\<in>{..<k} - {v}. p w = 0"
    using rest nonneg by (subst (asm) sum_nonneg_eq_0_iff) auto
  with u show ?thesis by simp
qed

text \<open>
  C6. For a conditional with one frontal variable and parent evidence for which
  \<open>choose\<close> yields the restricted table \<open>pFS\<close>, a distribution over the frontal values
  (non-negative, summing to 1, the invariant of the spec's data model): if the
  restricted table is exactly 1 at the frontal value \<open>v\<close>, then \<open>sample\<close> returns \<open>v\<close>.
  The generator is not consulted: the result is the same for every
  \<open>discrete_distribution\<close>, and the process-wide generator is left as it was on entry
  (constructed, if this was the first call, and otherwise untouched).
\<close>

theorem sample_shortcut:
  assumes "nrFrontals c = 1"
    and "choose_cond c parentsValues = Inr pFS"
    and "\<forall>u < cardinality c (firstFrontalKey c). 0 \<le> ADT_apply pFS [firstFrontalKey c \<mapsto> u]"
    and "(\<Sum>u < cardinality c (firstFrontalKey c). ADT_apply pFS [firstFrontalKey c \<mapsto> u]) = 1"
    and "v < cardinality c (firstFrontalKey c)"
    and "ADT_apply pFS [firstFrontalKey c \<mapsto> v] = 1"
  shows "sample mt19937 discrete_distribution c parentsValues st =
           (Inr v, Some (static_rng mt19937 st))"
proof -
  define key where "key = firstFrontalKey c"
  define nj where "nj = cardinality c key"
  define p where "p = (\<lambda>u. ADT_apply pFS [key \<mapsto> u])"
  have p: "\<And>u. ADT_apply pFS [key \<mapsto> u] = p u" by (simp add: p_def)
  have nonneg: "\<forall>u<nj. 0 \<le> p u" using assms(3) by (simp add: p_def key_def nj_def)
  have total: "(\<Sum>u<nj. p u) = 1" using assms(4) by (simp add: p_def key_def nj_def)
  have v: "v < nj" "p v = 1" using assms(5,6) by (simp_all add: p_def key_def nj_def)
  have first: "\<forall>u. 0 \<le> u \<longrightarrow> u < v \<longrightarrow> p u \<noteq> 1"
  proof (intro allI impI)
    fix u assume "u < v"
    with v(1) have "u < nj" "u \<noteq> v" by simp_all
    from distribution_unique_one[OF nonneg total v this] show "p u \<noteq> 1" by simp
  qed
  have "sample_loop pFS key nj 0 (replicate nj 0) = Shortcut v"
    by (rule sample_loop_shortcut[OF p v first]) simp_all
  then show ?thesis
    using assms(1,2) by (simp add: sample_def Let_def key_def nj_def)
qed

theorem sample_shortcut_witness:
  "nrFrontals P_certain = 1 \<and> choose_cond P_certain Map.empty = Inr (table P_certain) \<and>
   ADT_apply (table P_certain) [firstFrontalKey P_certain \<mapsto> 0] = 0 \<and>
   ADT_apply (table P_certain) [firstFrontalKey P_certain \<mapsto> 1] = 1 \<and>
   cardinality P_certain (firstFrontalKey P_certain) = 2 \<and>
   sample (\<lambda>seed. seed) (\<lambda>p rng. (0, Suc rng)) P_certain Map.empty None = (Inr 1, Some (2::nat))"
proof -
  have 1: "nrFrontals P_certain = 1" by (simp add: P_certain_def nrFrontals_def)
  have 2: "choose_cond P_certain Map.empty = Inr (table P_certain)"
    by (simp add: P_certain_def choose_cond_def)
  have k: "firstFrontalKey P_certain = 0" by (simp add: P_certain_def firstFrontalKey_def keys_def)
  have c2: "cardinality P_certain (firstFrontalKey P_certain) = 2" by (simp add: P_certain_def)
  have t0: "ADT_apply (table P_certain) [firstFrontalKey P_certain \<mapsto> 0] = 0"
    by (simp add: k) (simp add: P_certain_def ADT_apply_def)
  have t1: "ADT_apply (table P_certain) [firstFrontalKey P_certain \<mapsto> 1] = 1"
    by (simp add: k) (simp add: P_certain_def ADT_apply_def)
  have 3: "\<forall>u < cardinality P_certain (firstFrontalKey P_certain).
             0 \<le> ADT_apply (table P_certain) [firstFrontalKey P_certain \<mapsto> u]"
    unfolding c2 using t0 t1 by (auto simp: less_Suc_eq numeral_2_eq_2)
  have 4: "(\<Sum>u < cardinality P_certain (firstFrontalKey P_certain).
             ADT_apply (table P_certain) [firstFrontalKey P_certain \<mapsto> u]) = 1"
    unfolding c2 using t0 t1 by (simp add: numeral_2_eq_2)
  have 5: "1 < cardinality P_certain (firstFrontalKey P_certain)" unfolding c2 by simp
  from sample_shortcut[OF 1 2 3 4 5 t1, of "\<lambda>seed. seed" "\<lambda>p rng. (0, Suc rng)" None]
  show ?thesis using 1 2 t0 t1 c2 by (simp add: static_rng_def)
qed

text \<open>
  When no entry is exactly 1 the scan ends with the weights of all values, in order.
\<close>

lemma sample_loop_weights:
  assumes p: "\<And>u. ADT_apply pFS [key \<mapsto> u] = p u"
    and "\<forall>u<nj. p u \<noteq> 1" and "val \<le> nj" and "length q = nj"
    and "\<forall>u<val. q ! u = p u"
  shows "sample_loop pFS key nj val q = Weights (map p [0..<nj])"
  using assms
proof (induction pFS key nj val q rule: sample_loop.induct)
  case (1 pFS key nj val q)
  note p = "1.prems"(1)
  show ?case
  proof (cases "val < nj")
    case False
    with "1.prems"(3) have "val = nj" by simp
    with "1.prems"(4,5) have "q = map p [0..<nj]"
      by (intro nth_equalityI) simp_all
    moreover from False have "sample_loop pFS key nj val q = Weights q"
      by (subst sample_loop.simps) simp
    ultimately show ?thesis by simp
  next
    case True
    then have nth: "q[val := p val] ! val = p val" using "1.prems"(4) by simp
    from True "1.prems"(2) have ne: "p val \<noteq> 1" by simp
    have step: "sample_loop pFS key nj val q = sample_loop pFS key nj (val + 1) (q[val := p val])"
      using True nth ne by (subst sample_loop.simps) (simp add: p Let_def)
    have ne': "q[val := ADT_apply pFS [key \<mapsto> val]] ! val \<noteq> 1"
      using nth ne by (simp add: p)
    have "sample_loop pFS key nj (val + 1) (q[val := ADT_apply pFS [key \<mapsto> val]])
            = Weights (map p [0..<nj])"
    proof (rule "1.IH"[OF True refl ne' p "1.prems"(2)])
      show "val + 1 \<le> nj" using True by simp
      show "length (q[val := ADT_apply pFS [key \<mapsto> val]]) = nj" using "1.prems"(4) by simp
      show "\<forall>u<val + 1. q[val := ADT_apply pFS [key \<mapsto> val]] ! u = p u"
        using "1.prems"(4,5) True by (auto simp: p less_Suc_eq nth_list_update)
    qed
    then show ?thesis unfolding step by (simp add: p)
  qed
qed

lemma length_takeWhile_less_length:
  "x \<in> set xs \<Longrightarrow> \<not> P x \<Longrightarrow> length (takeWhile P xs) < length xs"
  by (induction xs) auto

text \<open>The scan as a whole: the first entry equal to 1, or else all the weights.\<close>

lemma sample_loop_scan:
  assumes p: "\<And>u. ADT_apply pFS [key \<mapsto> u] = p u"
  shows "sample_loop pFS key nj 0 (replicate nj 0) =
           (if 1 \<in> set (map p [0..<nj])
            then Shortcut (length (takeWhile (\<lambda>w. w \<noteq> 1) (map p [0..<nj])))
            else Weights (map p [0..<nj]))"
proof (cases "1 \<in> set (map p [0..<nj])")
  case False
  then have "\<forall>u<nj. p u \<noteq> 1" by auto
  from sample_loop_weights[OF p this, of 0 "replicate nj 0"] False
  show ?thesis by simp
next
  case True
  define ws where "ws = map p [0..<nj]"
  define v where "v = length (takeWhile (\<lambda>w. w \<noteq> 1) ws)"
  from True have "1 \<in> set ws" by (simp add: ws_def)
  then have lt: "v < length ws"
    unfolding v_def by (rule length_takeWhile_less_length) simp
  then have vnj: "v < nj" by (simp add: ws_def)
  from lt have "\<not> ws ! v \<noteq> 1" unfolding v_def by (rule nth_length_takeWhile)
  with vnj have one: "p v = 1" by (simp add: ws_def)
  have first: "\<forall>u. 0 \<le> u \<longrightarrow> u < v \<longrightarrow> p u \<noteq> 1"
  proof (intro allI impI)
    fix u assume u: "u < v"
    then have "takeWhile (\<lambda>w. w \<noteq> 1) ws ! u = ws ! u"
      unfolding v_def by (rule takeWhile_nth)
    moreover from u have "takeWhile (\<lambda>w. w \<noteq> 1) ws ! u \<in> set (takeWhile (\<lambda>w. w \<noteq> 1) ws)"
      unfolding v_def by (rule nth_mem)
    ultimately have "ws ! u \<noteq> 1" by (auto dest: set_takeWhileD)
    with u vnj show "p u \<noteq> 1" by (simp add: ws_def)
  qed
  have "sample_loop pFS key nj 0 (replicate nj 0) = Shortcut v"
    by (rule sample_loop_shortcut[OF p vnj one first]) simp_all
  with True show ?thesis by (simp add: v_def ws_def)
qed

text \<open>
  One call of the code is one call of the spec's \<open>sample\<close> on the process-wide
  generator, which is constructed with seed 2 if it does not exist yet, and which is
  left for the next call as the spec's \<open>sample\<close> returned it.
\<close>

lemma sample_refines_spec_sample:
  "sample mt19937 discrete_distribution c parentsValues st =
     (case spec_sample discrete_distribution c parentsValues (static_rng mt19937 st) of
        (r, rng') \<Rightarrow> (r, Some rng'))"
proof (cases "choose_cond c parentsValues")
  case (Inl e)
  then show ?thesis by (simp add: sample_def spec_sample_def)
next
  case (Inr pFS)
  show ?thesis
  proof (cases "nrFrontals c = 1")
    case False
    with Inr show ?thesis by (simp add: sample_def spec_sample_def)
  next
    case True
    have scan: "sample_loop pFS (firstFrontalKey c) nj 0 (replicate nj 0) =
           (if 1 \<in> set (map (\<lambda>v. ADT_apply pFS [firstFrontalKey c \<mapsto> v]) [0..<nj])
            then Shortcut (length (takeWhile (\<lambda>w. w \<noteq> 1)
                   (map (\<lambda>v. ADT_apply pFS [firstFrontalKey c \<mapsto> v]) [0..<nj])))
            else Weights (map (\<lambda>v. ADT_apply pFS [firstFrontalKey c \<mapsto> v]) [0..<nj]))" for nj
      by (rule sample_loop_scan) simp
    from Inr True show ?thesis
      by (simp add: sample_def spec_sample_def Let_def scan split: prod.splits)
  qed
qed

lemma sample_calls_refines:
  "sample_calls mt19937 discrete_distribution calls st =
     spec_sample_calls discrete_distribution calls (static_rng mt19937 st)"
proof (induction calls arbitrary: st)
  case Nil
  show ?case by simp
next
  case (Cons call calls)
  obtain c ev where call: "call = (c, ev)" by (cases call)
  obtain r g' where s: "spec_sample discrete_distribution c ev (static_rng mt19937 st) = (r, g')"
    by (cases "spec_sample discrete_distribution c ev (static_rng mt19937 st)")
  then have "sample mt19937 discrete_distribution c ev st = (r, Some g')"
    by (simp add: sample_refines_spec_sample)
  with s Cons.IH[of "Some g'"] call show ?case by (simp add: static_rng_def)
qed

text \<open>
  C7. Sampling is deterministic across runs. A freshly started process has not
  constructed the static generator. The results of any sequence of \<open>sample\<close> calls it
  makes are those of the spec's generator-passing \<open>sample\<close> started from one generator
  constructed with the fixed seed 2 and handed from each call to the next: one generator
  for the whole process, seeded once, at first use. The right-hand side mentions
  neither the process nor the seeding function, only the call sequence and the
  generator \<open>mt19937 2\<close>, so two fresh processes making the same calls obtain the same
  result at every call. Once the generator exists (second conjunct) the calls continue
  from it and it is never seeded again.
\<close>

theorem sample_calls_fixed_seed:
  "sample_calls mt19937 discrete_distribution calls None =
     spec_sample_calls discrete_distribution calls (mt19937 2) \<and>
   sample_calls mt19937 discrete_distribution calls (Some rng) =
     spec_sample_calls discrete_distribution calls rng"
  by (simp add: sample_calls_refines static_rng_def)

text \<open>
  A run with a toy generator (the state counts upwards from the seed; a draw returns the
  state modulo the number of weights): the call on \<open>P_certain\<close> takes the shortcut and
  leaves the generator where it was.
\<close>

lemma sample_calls_example:
  "sample_calls (\<lambda>seed. seed) (\<lambda>p rng. (rng mod length p, Suc rng))
     [(P_X, Map.empty), (P_certain, Map.empty), (P_X, Map.empty), (P_Y_given_X, Map.empty)] None
   = [Inr 0, Inr 1, Inr 1, Inl MissingParentValue]"
  by (simp add: sample_def static_rng_def choose_cond_def nrFrontals_def firstFrontalKey_def
      keys_def ADT_apply_def P_X_def P_certain_def P_Y_given_X_def numeral_2_eq_2 numeral_3_eq_3
      sample_loop.simps mod_Suc)

subsection \<open>More than one frontal variable\<close>

text \<open>
  C5. The claim: on a conditional with more than one frontal variable, \<open>solve\<close>,
  \<open>sample\<close> and \<open>chooseAsFactor\<close> fail with \<open>UnsupportedArity\<close>. The code at the
  conditional \<open>P_AB_given_C\<close> (two frontal variables) with evidence for its parent:
  \<open>chooseAsFactor\<close> throws the arity error, while \<open>solve\<close> and \<open>sample\<close> never throw it.
  Their only guard is \<^verbatim>\<open>assert(nrFrontals() == 1)\<close>: a failed assertion where
  assertions are compiled in, and no check at all under \<^verbatim>\<open>NDEBUG\<close>.
\<close>

theorem multi_frontal_arity_check:
  "nrFrontals P_AB_given_C = 2 \<and>
   set (parents P_AB_given_C) \<subseteq> dom [2 \<mapsto> 0] \<and>
   chooseAsFactor P_AB_given_C [2 \<mapsto> 0] = Inl UnsupportedArity \<and>
   solve P_AB_given_C [2 \<mapsto> 0] = Inl AssertionFailure \<and>
   fst (sample (\<lambda>seed. seed) (\<lambda>p rng. (0, Suc rng)) P_AB_given_C [2 \<mapsto> 0] (None :: nat option))
     = Inl AssertionFailure"
  by (simp add: P_AB_given_C_def nrFrontals_def solve_def sample_def chooseAsFactor_def
      choose_cond_def)

subsection \<open>solveInPlace and sampleInPlace\<close>

lemma solveInPlace_store_frame:
  "k \<notin> set js \<Longrightarrow> solveInPlace_store js mpe vals k = vals k"
  by (induction js arbitrary: vals) auto

lemma solveInPlace_store_dom:
  "dom (solveInPlace_store js mpe vals) = set js \<union> dom vals"
  by (induction js arbitrary: vals) auto

text \<open>
  C8. After \<open>solveInPlace\<close> and after \<open>sampleInPlace\<close>, whether they return or fail,
  every key that is not a frontal variable of the node is bound in the caller's
  assignment as it was before the call (to the same value, or still absent); and when
  the call returns, every frontal variable of the node is bound.
\<close>

theorem inPlace_frame:
  "(k \<notin> set (frontals c) \<longrightarrow>
      snd (solveInPlace cartesianProduct c vals) k = vals k \<and>
      fst (snd (sampleInPlace mt19937 discrete_distribution c vals st)) k = vals k) \<and>
   (fst (solveInPlace cartesianProduct c vals) = Inr () \<longrightarrow>
      set (frontals c) \<subseteq> dom (snd (solveInPlace cartesianProduct c vals))) \<and>
   (fst (sampleInPlace mt19937 discrete_distribution c vals st) = Inr () \<longrightarrow>
      set (frontals c) \<subseteq> dom (fst (snd (sampleInPlace mt19937 discrete_distribution c vals st))))"
proof (intro conjI impI)
  assume "k \<notin> set (frontals c)"
  then show "snd (solveInPlace cartesianProduct c vals) k = vals k"
    by (simp add: solveInPlace_def Let_def solveInPlace_store_frame split: sum.splits)
next
  assume k: "k \<notin> set (frontals c)"
  show "fst (snd (sampleInPlace mt19937 discrete_distribution c vals st)) k = vals k"
  proof (cases "nrFrontals c = 1")
    case False
    then show ?thesis by (simp add: sampleInPlace_def)
  next
    case True
    then obtain f where f: "frontals c = [f]"
      by (cases "frontals c") (auto simp: nrFrontals_def)
    then have "firstFrontalKey c = f" by (simp add: firstFrontalKey_def keys_def)
    with f k have "k \<noteq> firstFrontalKey c" by simp
    then show ?thesis
      using True by (simp add: sampleInPlace_def Let_def split: prod.splits sum.splits)
  qed
next
  assume "fst (solveInPlace cartesianProduct c vals) = Inr ()"
  then show "set (frontals c) \<subseteq> dom (snd (solveInPlace cartesianProduct c vals))"
    by (simp add: solveInPlace_def Let_def solveInPlace_store_dom split: sum.splits)
next
  assume ok: "fst (sampleInPlace mt19937 discrete_distribution c vals st) = Inr ()"
  then have one: "nrFrontals c = 1"
    by (cases "nrFrontals c = 1") (simp_all add: sampleInPlace_def)
  then obtain f where f: "frontals c = [f]"
    by (cases "frontals c") (auto simp: nrFrontals_def)
  then have "firstFrontalKey c = f" by (simp add: firstFrontalKey_def keys_def)
  with f ok one
  show "set (frontals c) \<subseteq> dom (fst (snd (sampleInPlace mt19937 discrete_distribution c vals st)))"
    by (simp add: sampleInPlace_def Let_def split: prod.splits sum.splits)
qed


theorem inPlace_frame_witness:
  "0 \<notin> set (frontals P_Y_given_X) \<and>
   fst (solveInPlace (\<lambda>dkeys. [[1 \<mapsto> 0], [1 \<mapsto> 1]]) P_Y_given_X [0 \<mapsto> 1]) = Inr () \<and>
   snd (solveInPlace (\<lambda>dkeys. [[1 \<mapsto> 0], [1 \<mapsto> 1]]) P_Y_given_X [0 \<mapsto> 1]) 0 = Some 1 \<and>
   snd (solveInPlace (\<lambda>dkeys. [[1 \<mapsto> 0], [1 \<mapsto> 1]]) P_Y_given_X [0 \<mapsto> 1]) 1 = Some 1 \<and>
   fst (snd (sampleInPlace (\<lambda>seed. seed) (\<lambda>p rng. (rng mod length p, Suc rng))
               P_Y_given_X [0 \<mapsto> 1] None)) 0 = Some 1 \<and>
   fst (snd (sampleInPlace (\<lambda>seed. seed) (\<lambda>p rng. (rng mod length p, Suc rng))
               P_Y_given_X [0 \<mapsto> 1] None)) 1 = Some 0"
proof -
  have nf: "0 \<notin> set (frontals P_Y_given_X)" by (simp add: P_Y_given_X_def)
  have ok: "fst (solveInPlace (\<lambda>dkeys. [[1 \<mapsto> 0], [1 \<mapsto> 1]]) P_Y_given_X [0 \<mapsto> 1]) = Inr ()"
    by (simp add: solveInPlace_def choose_cond_def P_Y_given_X_def)
  have s1: "snd (solveInPlace (\<lambda>dkeys. [[1 \<mapsto> 0], [1 \<mapsto> 1]]) P_Y_given_X [0 \<mapsto> 1]) 1 = Some 1"
    by (simp add: solveInPlace_def choose_cond_def ADT_choose_def ADT_apply_def P_Y_given_X_def)
  have s2: "fst (snd (sampleInPlace (\<lambda>seed. seed) (\<lambda>p rng. (rng mod length p, Suc rng))
               P_Y_given_X [0 \<mapsto> 1] None)) 1 = Some 0"
    by (simp add: sampleInPlace_def sample_def static_rng_def choose_cond_def nrFrontals_def
        firstFrontalKey_def keys_def ADT_choose_def ADT_apply_def P_Y_given_X_def numeral_2_eq_2
        sample_loop.simps)
  from inPlace_frame [of 0 P_Y_given_X "\<lambda>dkeys. [[1 \<mapsto> 0], [1 \<mapsto> 1]]" "[0 \<mapsto> 1]"
      "\<lambda>seed. seed" "\<lambda>p rng. (rng mod length p, Suc rng)" None] nf ok s1 s2
  show ?thesis by simp
qed

end
